theory Spec2Isabelle
  imports Main "HOL-Library.Word"
begin

unbundle bit_operations_syntax

section \<open>BetterWH2: the WH2 receiver of BetterWH2.ino\<close>

text \<open>
  The sketch runs on an AVR: \<open>byte\<close> and \<open>uint8_t\<close> are 8-bit unsigned, \<open>int\<close> is
  16-bit two's complement. The timer interrupt handler and one pass of \<open>loop()\<close> are each
  taken as one atomic step; the pin level read by the handler is its argument.
\<close>

type_synonym byte = "8 word"
type_synonym int16 = "16 word"

subsection \<open>Macros\<close>

definition IS_HI_PULSE :: "byte \<Rightarrow> bool" where
  "IS_HI_PULSE interval = (2 \<le> interval \<and> interval \<le> 3)"

definition IS_LOW_PULSE :: "byte \<Rightarrow> bool" where
  "IS_LOW_PULSE interval = (7 \<le> interval \<and> interval \<le> 8)"

definition HAS_TIMED_OUT :: "int16 \<Rightarrow> bool" where
  "HAS_TIMED_OUT interval = (600 <s interval)"

definition IDLE_HAS_TIMED_OUT :: "byte \<Rightarrow> bool" where
  "IDLE_HAS_TIMED_OUT interval = (6 < interval)"

definition IDLE_PERIOD_DONE :: "byte \<Rightarrow> bool" where
  "IDLE_PERIOD_DONE interval = (4 \<le> interval)"

definition GOT_PULSE :: byte where
  "GOT_PULSE = 0x01"

definition LOGIC_HI :: byte where
  "LOGIC_HI = 0x02"

subsection \<open>The globals and the function-local statics\<close>

text \<open>
  \<open>wh2_flags\<close>, \<open>wh2_packet_state\<close>, \<open>wh2_timeout\<close>, \<open>wh2_packet\<close> and
  \<open>wh2_calculated_crc\<close> are the globals; \<open>sampling_state\<close>, \<open>count\<close> and \<open>was_low\<close>
  are the statics of the interrupt handler; \<open>packet_no\<close>, \<open>bit_no\<close> and \<open>history\<close>
  are the statics of \<open>wh2_accept\<close>. The array \<open>wh2_packet\<close> is a list of 5 bytes.
\<close>

record wh2 =
  wh2_flags :: byte
  wh2_packet_state :: byte
  wh2_timeout :: int16
  wh2_packet :: "byte list"
  wh2_calculated_crc :: byte
  sampling_state :: byte
  count :: byte
  was_low :: bool
  packet_no :: byte
  bit_no :: byte
  history :: byte

text \<open>C zero-initialises globals and statics; \<open>was_low\<close> is initialised to false.\<close>

definition wh2_init :: wh2 where
  "wh2_init = \<lparr> wh2_flags = 0, wh2_packet_state = 0, wh2_timeout = 0,
     wh2_packet = [0, 0, 0, 0, 0], wh2_calculated_crc = 0,
     sampling_state = 0, count = 0, was_low = False,
     packet_no = 0, bit_no = 0, history = 0 \<rparr>"

subsection \<open>The timer interrupt handler\<close>

text \<open>
  The \<open>switch (sampling_state)\<close> of the handler. \<open>rf\<close> is \<open>RF_HI\<close>, the level of the
  receiver pin at this tick; \<open>RF_LOW\<close> is its negation. A value of \<open>sampling_state\<close>
  other than 0, 1, 2 matches no case.
\<close>

definition sampler_switch :: "bool \<Rightarrow> wh2 \<Rightarrow> wh2" where
  "sampler_switch rf s =
    (if sampling_state s = 0 then
       (let s1 = s\<lparr>wh2_packet_state := 0\<rparr> in
        if rf then
          (if was_low s1 then s1\<lparr>count := 0, sampling_state := 1, was_low := False\<rparr>
           else s1)
        else s1\<lparr>was_low := True\<rparr>)
     else if sampling_state s = 1 then
       (let s1 = s\<lparr>count := count s + 1\<rparr> in
        if \<not> rf then
          (if IS_HI_PULSE (count s1) then
             s1\<lparr>wh2_flags := GOT_PULSE OR LOGIC_HI, sampling_state := 2, count := 0\<rparr>
           else if IS_LOW_PULSE (count s1) then
             s1\<lparr>wh2_flags := GOT_PULSE, sampling_state := 2, count := 0\<rparr>
           else s1\<lparr>sampling_state := 0\<rparr>)
        else s1)
     else if sampling_state s = 2 then
       (let s1 = s\<lparr>count := count s + 1\<rparr> in
        if rf then
          (if IDLE_HAS_TIMED_OUT (count s1) then s1\<lparr>sampling_state := 0\<rparr>
           else if IDLE_PERIOD_DONE (count s1) then s1\<lparr>sampling_state := 1, count := 0\<rparr>
           else s1)
        else s1)
     else s)"

text \<open>The packet timeout check that ends the handler.\<close>

definition timeout_check :: "wh2 \<Rightarrow> wh2" where
  "timeout_check s =
    (if 0 <s wh2_timeout s then
       (let s1 = s\<lparr>wh2_timeout := wh2_timeout s + 1\<rparr> in
        if HAS_TIMED_OUT (wh2_timeout s1) then s1\<lparr>wh2_packet_state := 0, wh2_timeout := 0\<rparr>
        else s1)
     else s)"

definition TIMER1_COMPA_vect :: "bool \<Rightarrow> wh2 \<Rightarrow> wh2" where
  "TIMER1_COMPA_vect rf s = timeout_check (sampler_switch rf s)"

subsection \<open>The frame decoder\<close>

text \<open>
  \<open>wh2_accept\<close> returns the flag it returns in C and the updated variables. An index
  \<open>packet_no\<close> outside the 5-byte array is undefined behaviour in C: the model returns
  \<open>None\<close> there.
\<close>

definition wh2_accept :: "wh2 \<Rightarrow> (bool \<times> wh2) option" where
  "wh2_accept s =
    (let s1 = (if wh2_packet_state s = 0
               then s\<lparr>history := 0xFF, wh2_packet_state := 1, wh2_timeout := 1\<rparr>
               else s) in
     if wh2_packet_state s1 = 1 then
       (let s2 = s1\<lparr>history := push_bit 1 (history s1)\<rparr>;
            s3 = (if wh2_flags s2 AND LOGIC_HI \<noteq> 0
                  then s2\<lparr>history := history s2 OR 0x01\<rparr> else s2);
            s4 = (if history s3 AND 0x07 = 0x06
                  then s3\<lparr>packet_no := 0, bit_no := 1, wh2_packet := [0, 0, 0, 0, 0],
                          wh2_packet_state := 2\<rparr>
                  else s3)
        in Some (False, s4))
     else if wh2_packet_state s1 = 2 then
       (if unat (packet_no s1) < 5 then
          (let i = unat (packet_no s1);
               s2 = s1\<lparr>wh2_packet := (wh2_packet s1)[i := push_bit 1 (wh2_packet s1 ! i)]\<rparr>;
               s3 = (if wh2_flags s2 AND LOGIC_HI \<noteq> 0
                     then s2\<lparr>wh2_packet := (wh2_packet s2)[i := (wh2_packet s2 ! i) OR 0x01]\<rparr>
                     else s2);
               s4 = s3\<lparr>bit_no := bit_no s3 + 1\<rparr>;
               s5 = (if 7 < bit_no s4 then s4\<lparr>bit_no := 0, packet_no := packet_no s4 + 1\<rparr>
                     else s4)
           in if 4 < packet_no s5
              then Some (True, s5\<lparr>wh2_packet_state := 0, wh2_timeout := 0\<rparr>)
              else Some (False, s5))
        else None)
     else Some (False, s1))"

subsection \<open>Checksum and field extraction\<close>

text \<open>
  One pass of the \<open>for\<close> loop of \<open>crc8\<close> on the pair \<open>(crc, inbyte)\<close>, and the loop
  itself, which runs 8 times.
\<close>

definition crc8_bit :: "byte \<times> byte \<Rightarrow> byte \<times> byte" where
  "crc8_bit ci =
    (let crc = fst ci; inbyte = snd ci;
         mix = (crc XOR inbyte) AND 0x80;
         crc1 = push_bit 1 crc;
         crc2 = (if mix \<noteq> 0 then crc1 XOR 0x31 else crc1)
     in (crc2, push_bit 1 inbyte))"

definition crc8_byte :: "byte \<Rightarrow> byte \<Rightarrow> byte" where
  "crc8_byte crc inbyte =
     fst (crc8_bit (crc8_bit (crc8_bit (crc8_bit (crc8_bit (crc8_bit (crc8_bit (crc8_bit
       (crc, inbyte)))))))))"

text \<open>
  The \<open>while (len--)\<close> loop: the argument list is the \<open>len\<close> bytes at \<open>addr\<close>, read in
  order.
\<close>

fun crc8_from :: "byte \<Rightarrow> byte list \<Rightarrow> byte" where
  "crc8_from crc [] = crc"
| "crc8_from crc (inbyte # addr) = crc8_from (crc8_byte crc inbyte) addr"

definition crc8 :: "byte list \<Rightarrow> byte" where
  "crc8 addr = crc8_from 0 addr"

definition wh2_calculate_crc :: "wh2 \<Rightarrow> wh2" where
  "wh2_calculate_crc s = s\<lparr>wh2_calculated_crc := crc8 (take 4 (wh2_packet s))\<rparr>"

definition wh2_valid :: "wh2 \<Rightarrow> bool" where
  "wh2_valid s = (wh2_calculated_crc s = wh2_packet s ! 4)"

text \<open>The operands are promoted to the 16-bit \<open>int\<close> before shifting and adding.\<close>

definition wh2_sensor_id :: "wh2 \<Rightarrow> int16" where
  "wh2_sensor_id s =
     push_bit 4 (ucast (wh2_packet s ! 0)) + drop_bit 4 (ucast (wh2_packet s ! 1))"

definition wh2_humidity :: "wh2 \<Rightarrow> byte" where
  "wh2_humidity s = wh2_packet s ! 3"

definition wh2_temperature :: "wh2 \<Rightarrow> int16" where
  "wh2_temperature s =
    (let temperature = push_bit 8 (ucast (wh2_packet s ! 1 AND 0x07)) + ucast (wh2_packet s ! 2)
     in if wh2_packet s ! 1 AND 0x08 \<noteq> 0 then - temperature else temperature)"

subsection \<open>The main loop\<close>

text \<open>
  One pass of \<open>loop()\<close>, without the reporting (serial output, LED, counters): it
  returns whether this pass received a packet (\<open>wh2_accept\<close> returned true).
\<close>

definition loop :: "wh2 \<Rightarrow> (bool \<times> wh2) option" where
  "loop s =
    (if wh2_flags s \<noteq> 0 then
       (case wh2_accept s of
          None \<Rightarrow> None
        | Some (r, s1) \<Rightarrow>
            Some (r, (if r then wh2_calculate_crc s1 else s1)\<lparr>wh2_flags := 0x00\<rparr>))
     else Some (False, s))"

text \<open>
  A run of the program is a sequence of events: a timer tick with the pin level it
  samples, or one pass of the main loop. \<open>run\<close> carries the flag of the last event
  (true when that event was a pass that received a packet).
\<close>

datatype event = Tick bool | Pass

fun step :: "event \<Rightarrow> wh2 \<Rightarrow> (bool \<times> wh2) option" where
  "step (Tick rf) s = Some (False, TIMER1_COMPA_vect rf s)"
| "step Pass s = loop s"

fun run :: "event list \<Rightarrow> bool \<times> wh2 \<Rightarrow> (bool \<times> wh2) option" where
  "run [] rs = Some rs"
| "run (e # es) rs = (case step e (snd rs) of None \<Rightarrow> None | Some rs' \<Rightarrow> run es rs')"

subsection \<open>Derived notions used in the statements\<close>

text \<open>
  The three least-significant bits of the bit-history register read 1, 1, 0 (bit 2,
  bit 1, bit 0).
\<close>

definition sync_110 :: "byte \<Rightarrow> bool" where
  "sync_110 h = (bit h 2 \<and> bit h 1 \<and> \<not> bit h 0)"

text \<open>The packet timeout counter is running and its increment at this tick exceeds 600.\<close>

definition timeout_fires :: "wh2 \<Rightarrow> bool" where
  "timeout_fires s = (0 <s wh2_timeout s \<and> HAS_TIMED_OUT (wh2_timeout s + 1))"

subsection \<open>Synthetic inputs\<close>

text \<open>
  The pin samples of one pulse: three idle LOW samples, the line HIGH for 2 samples
  (bit 1) or 7 samples (bit 0), and the LOW sample that ends the pulse. \<open>polled\<close> lets
  the main loop make one pass after every tick. \<open>transmission\<close> is eight preamble
  1-bits followed by the bits of the bytes, most-significant bit first.
\<close>

definition pulse :: "bool \<Rightarrow> bool list" where
  "pulse b = replicate 3 False @ replicate (if b then 2 else 7) True @ [False]"

definition polled :: "bool list \<Rightarrow> event list" where
  "polled rfs = concat (map (\<lambda>rf. [Tick rf, Pass]) rfs)"

definition bits_of :: "byte \<Rightarrow> bool list" where
  "bits_of b = map (bit b) [7, 6, 5, 4, 3, 2, 1, 0]"

definition transmission :: "byte list \<Rightarrow> bool list" where
  "transmission bytes = concat (map pulse (replicate 8 True @ concat (map bits_of bytes)))"

subsection \<open>The checksum as the specification words it\<close>

text \<open>
  Starting from 0, every byte is processed most-significant bit first: the accumulator
  is shifted left by one, and the constant 0x31 is XOR-ed in when the top bit of the
  accumulator mixed (XOR) with the data bit is set.
\<close>

definition checksum_step :: "byte \<Rightarrow> bool \<Rightarrow> byte" where
  "checksum_step crc b = (if bit crc 7 \<noteq> b then push_bit 1 crc XOR 0x31 else push_bit 1 crc)"

definition checksum :: "byte list \<Rightarrow> byte" where
  "checksum bytes = foldl checksum_step 0 (concat (map bits_of bytes))"

subsection \<open>An invariant of the frame decoder\<close>

text \<open>
  The packet buffer has 5 bytes and the frame state is 0, 1 or 2. While bits are
  accumulated the position is inside the buffer; in byte 0 only \<open>bit_no - 1\<close> bits have
  been shifted in, and once byte 0 is complete its top bit is clear.
\<close>

definition frame_inv :: "wh2 \<Rightarrow> bool" where
  "frame_inv s =
    (length (wh2_packet s) = 5 \<and>
     (wh2_packet_state s = 0 \<or> wh2_packet_state s = 1 \<or> wh2_packet_state s = 2) \<and>
     (wh2_packet_state s = 2 \<longrightarrow>
        packet_no s \<le> 4 \<and> bit_no s \<le> 7 \<and>
        (packet_no s = 0 \<longrightarrow>
           1 \<le> bit_no s \<and> unat (wh2_packet s ! 0) < 2 ^ (unat (bit_no s) - 1)) \<and>
        (packet_no s \<noteq> 0 \<longrightarrow> wh2_packet s ! 0 \<le> 0x7F)))"

subsection \<open>The frame decoder on a sequence of bits\<close>

text \<open>
  \<open>bits_accumulated\<close> is the bit position in the packet buffer, counted over the 40 bit
  positions of its 5 bytes. \<open>shift_in\<close> is what \<open>wh2_accept\<close> does to the current byte:
  shift left by one and set the low bit to the new bit.
\<close>

definition bits_accumulated :: "wh2 \<Rightarrow> nat" where
  "bits_accumulated s = 8 * unat (packet_no s) + unat (bit_no s)"

definition shift_in :: "byte \<Rightarrow> bool \<Rightarrow> byte" where
  "shift_in w b = push_bit 1 w OR of_bool b"

text \<open>
  The hand-off of one classified pulse with the ticks left out: the interrupt handler
  assigns \<open>wh2_flags\<close> (\<open>GOT_PULSE | LOGIC_HI\<close> for bit 1, \<open>GOT_PULSE\<close> for bit 0) and the
  main loop makes one pass. \<open>deliver_all\<close> hands off a sequence of bits and carries the
  flag of the last pass.
\<close>

definition pulse_flags :: "bool \<Rightarrow> byte" where
  "pulse_flags b = (if b then GOT_PULSE OR LOGIC_HI else GOT_PULSE)"



subsection \<open>An invariant of the packet timeout\<close>

text \<open>While the frame state is not idle the timeout counter is running, between 1 and 600.\<close>

definition timeout_inv :: "wh2 \<Rightarrow> bool" where
  "timeout_inv s = (wh2_packet_state s \<noteq> 0 \<longrightarrow> 0 <s wh2_timeout s \<and> wh2_timeout s \<le>s 600)"

section \<open>The pulse sampler\<close>

lemmas macro_defs = IS_HI_PULSE_def IS_LOW_PULSE_def HAS_TIMED_OUT_def IDLE_HAS_TIMED_OUT_def
  IDLE_PERIOD_DONE_def GOT_PULSE_def LOGIC_HI_def

lemma timeout_check_sampler [simp]:
  "wh2_flags (timeout_check s) = wh2_flags s"
  "sampling_state (timeout_check s) = sampling_state s"
  "count (timeout_check s) = count s"
  "was_low (timeout_check s) = was_low s"
  "wh2_packet (timeout_check s) = wh2_packet s"
  by (simp_all add: timeout_check_def Let_def)

lemma pulse_ranges_disjoint: "\<not> (IS_HI_PULSE c \<and> IS_LOW_PULSE c)"
proof
  assume "IS_HI_PULSE c \<and> IS_LOW_PULSE c"
  then have "(7::byte) \<le> c" and "c \<le> 3" by (simp_all add: macro_defs)
  then have "(7::byte) \<le> 3" by (rule order_trans)
  then show False by simp
qed

lemma run_append:
  "run (xs @ ys) rs = (case run xs rs of None \<Rightarrow> None | Some rs' \<Rightarrow> run ys rs')"
  by (induction xs arbitrary: rs) (simp_all split: option.splits)

lemma byte_of_nat_le:
  assumes "n \<le> 255" and "k \<le> 255"
  shows "((of_nat k :: byte) \<le> of_nat n) = (k \<le> n)"
  using assms by (simp add: word_le_nat_alt unat_of_nat)

lemma byte_of_nat_less:
  assumes "n \<le> 255" and "k \<le> 255"
  shows "((of_nat n :: byte) < of_nat k) = (n < k)"
  using assms by (simp add: word_less_nat_alt unat_of_nat)

subsection \<open>Acquiring a pulse\<close>

text \<open>
  While the line stays HIGH in the acquiring-pulse state the handler only counts: after
  \<open>n\<close> such ticks the 8-bit counter has advanced by \<open>n\<close> (modulo 256).
\<close>

lemma high_ticks_count:
  assumes "sampling_state s = 1"
  shows "\<exists>r s'. run (replicate n (Tick True)) (r0, s) = Some (r, s') \<and>
           sampling_state s' = 1 \<and> count s' = count s + of_nat n \<and>
           wh2_flags s' = wh2_flags s"
  using assms
proof (induction n arbitrary: r0 s)
  case 0
  then show ?case by simp
next
  case (Suc n)
  let ?s1 = "TIMER1_COMPA_vect True s"
  from Suc.prems have s1: "sampling_state ?s1 = 1" "count ?s1 = count s + 1"
    "wh2_flags ?s1 = wh2_flags s"
    by (simp_all add: TIMER1_COMPA_vect_def sampler_switch_def Let_def)
  from Suc.IH [OF s1(1), of False] s1 show ?case by (auto simp add: add.assoc)
qed

text \<open>
  One tick of the acquiring-pulse state that samples the line LOW: the handler
  increments the counter and classifies the value of the 8-bit counter.
\<close>

lemma acquiring_low_tick:
  assumes "sampling_state s = 1"
  shows "(2 \<le> count s + 1 \<and> count s + 1 \<le> 3 \<longrightarrow>
            wh2_flags (TIMER1_COMPA_vect False s) = GOT_PULSE OR LOGIC_HI \<and>
            sampling_state (TIMER1_COMPA_vect False s) = 2) \<and>
         (7 \<le> count s + 1 \<and> count s + 1 \<le> 8 \<longrightarrow>
            wh2_flags (TIMER1_COMPA_vect False s) = GOT_PULSE \<and>
            sampling_state (TIMER1_COMPA_vect False s) = 2) \<and>
         (\<not> (2 \<le> count s + 1 \<and> count s + 1 \<le> 3) \<and>
          \<not> (7 \<le> count s + 1 \<and> count s + 1 \<le> 8) \<longrightarrow>
            wh2_flags (TIMER1_COMPA_vect False s) = wh2_flags s \<and>
            sampling_state (TIMER1_COMPA_vect False s) = 0)"
  using assms pulse_ranges_disjoint [of "count s + 1"]
  unfolding IS_HI_PULSE_def IS_LOW_PULSE_def
  by (auto simp add: TIMER1_COMPA_vect_def sampler_switch_def Let_def IS_HI_PULSE_def
      IS_LOW_PULSE_def)

text \<open>
  A HIGH pulse of \<open>n\<close> ticks, from the rising edge seen in the waiting state to the
  tick that samples the line LOW. For every width up to 255 ticks the code classifies
  the pulse by its width: 2..3 ticks raise an event with bit 1, 7..8 ticks an event
  with bit 0, any other width raises no event and returns the sampler to waiting.
\<close>

lemma pulse_width_classification:
  assumes "sampling_state s = 0" and "was_low s" and "1 \<le> n" and "n \<le> 255"
  shows "\<exists>r s'. run (map Tick (replicate n True @ [False])) (r0, s) = Some (r, s') \<and>
           (2 \<le> n \<and> n \<le> 3 \<longrightarrow>
              wh2_flags s' = GOT_PULSE OR LOGIC_HI \<and> sampling_state s' = 2) \<and>
           (7 \<le> n \<and> n \<le> 8 \<longrightarrow>
              wh2_flags s' = GOT_PULSE \<and> sampling_state s' = 2) \<and>
           (\<not> (2 \<le> n \<and> n \<le> 3) \<and> \<not> (7 \<le> n \<and> n \<le> 8) \<longrightarrow>
              wh2_flags s' = wh2_flags s \<and> sampling_state s' = 0)"
proof -
  from assms(3) obtain m where n: "n = Suc m" by (cases n) auto
  let ?s1 = "TIMER1_COMPA_vect True s"
  from assms(1,2) have s1: "sampling_state ?s1 = 1" "count ?s1 = 0" "wh2_flags ?s1 = wh2_flags s"
    by (simp_all add: TIMER1_COMPA_vect_def sampler_switch_def Let_def)
  from high_ticks_count [OF s1(1), of m False] s1 obtain r2 s2 where
    s2: "run (replicate m (Tick True)) (False, ?s1) = Some (r2, s2)"
      "sampling_state s2 = 1" "count s2 = of_nat m" "wh2_flags s2 = wh2_flags s"
    by auto
  have c: "count s2 + 1 = of_nat n" using s2(3) n by simp
  have r: "run (map Tick (replicate n True @ [False])) (r0, s) =
      Some (False, TIMER1_COMPA_vect False s2)"
    using s2(1) by (simp add: n run_append)
  have le: "((2::byte) \<le> of_nat n) = (2 \<le> n)" "((of_nat n :: byte) \<le> 3) = (n \<le> 3)"
    "((7::byte) \<le> of_nat n) = (7 \<le> n)" "((of_nat n :: byte) \<le> 8) = (n \<le> 8)"
    using byte_of_nat_le [OF assms(4), of 2] byte_of_nat_le [of 3 n]
      byte_of_nat_le [OF assms(4), of 7] byte_of_nat_le [of 8 n] assms(4)
    by simp_all
  from acquiring_low_tick [OF s2(2)] show ?thesis
    unfolding r c le s2(4) by auto
qed

text \<open>
  C3. The claim: a HIGH pulse whose tick count lies outside 2..3 and 7..8 raises no
  event and returns the sampler to waiting. The code breaks it for long pulses, because
  \<open>count\<close> is a byte and wraps at 256. From power-on, a LOW sample, the line HIGH for
  258 ticks and a LOW sample: the counter reads 2 at the falling edge, and the handler
  raises an event with bit 1 (\<open>wh2_flags = GOT_PULSE | LOGIC_HI = 3\<close>) and goes on to
  the idle-gap state. With the line HIGH for 263 ticks the counter reads 7 and the
  handler raises an event with bit 0 (\<open>wh2_flags = GOT_PULSE = 1\<close>).
\<close>

theorem long_pulse_event:
  "run (map Tick ([False] @ replicate 258 True @ [False])) (False, wh2_init) =
     Some (False, \<lparr>wh2_flags = 3, wh2_packet_state = 0, wh2_timeout = 0,
       wh2_packet = [0, 0, 0, 0, 0], wh2_calculated_crc = 0,
       sampling_state = 2, count = 0, was_low = False, packet_no = 0,
       bit_no = 0, history = 0\<rparr>) \<and>
   run (map Tick ([False] @ replicate 263 True @ [False])) (False, wh2_init) =
     Some (False, \<lparr>wh2_flags = 1, wh2_packet_state = 0, wh2_timeout = 0,
       wh2_packet = [0, 0, 0, 0, 0], wh2_calculated_crc = 0,
       sampling_state = 2, count = 0, was_low = False, packet_no = 0,
       bit_no = 0, history = 0\<rparr>) \<and>
   GOT_PULSE OR LOGIC_HI = 3 \<and> GOT_PULSE = 1"
  by code_simp

subsection \<open>Measuring the idle gap\<close>

text \<open>
  While the line stays LOW in the idle-gap state the handler only counts, whatever the
  count has reached.
\<close>

lemma low_ticks_count:
  assumes "sampling_state s = 2"
  shows "\<exists>r s'. run (replicate n (Tick False)) (r0, s) = Some (r, s') \<and>
           sampling_state s' = 2 \<and> count s' = count s + of_nat n \<and>
           wh2_flags s' = wh2_flags s"
  using assms
proof (induction n arbitrary: r0 s)
  case 0
  then show ?case by simp
next
  case (Suc n)
  let ?s1 = "TIMER1_COMPA_vect False s"
  from Suc.prems have s1: "sampling_state ?s1 = 2" "count ?s1 = count s + 1"
    "wh2_flags ?s1 = wh2_flags s"
    by (simp_all add: TIMER1_COMPA_vect_def sampler_switch_def Let_def)
  from Suc.IH [OF s1(1), of False] s1 show ?case by (auto simp add: add.assoc)
qed

text \<open>One tick of the idle-gap state, on the value of the 8-bit counter.\<close>

lemma idle_gap_tick:
  assumes "sampling_state s = 2"
  shows "(count s + 1 < 4 \<longrightarrow> sampling_state (TIMER1_COMPA_vect rf s) = 2) \<and>
         (rf \<and> 4 \<le> count s + 1 \<and> count s + 1 < 7 \<longrightarrow>
            sampling_state (TIMER1_COMPA_vect rf s) = 1 \<and> count (TIMER1_COMPA_vect rf s) = 0) \<and>
         (rf \<and> 7 \<le> count s + 1 \<longrightarrow> sampling_state (TIMER1_COMPA_vect rf s) = 0) \<and>
         (\<not> rf \<longrightarrow> sampling_state (TIMER1_COMPA_vect rf s) = 2 \<and>
            count (TIMER1_COMPA_vect rf s) = count s + 1)"
  using assms
  by (auto simp add: TIMER1_COMPA_vect_def sampler_switch_def Let_def
      IDLE_HAS_TIMED_OUT_def IDLE_PERIOD_DONE_def word_le_nat_alt word_less_nat_alt)

text \<open>
  An idle gap of \<open>n\<close> ticks, from the tick that ended a pulse to the tick that samples
  the line HIGH again. For every gap up to 255 ticks the code does at that HIGH edge
  what the gap calls for: below 4 ticks it stays in idle-gap measurement, from 4 to 6
  ticks it proceeds to acquire the next pulse, from 7 ticks on it resets to waiting.
\<close>

lemma gap_width_classification:
  assumes "sampling_state s = 2" and "count s = 0" and "1 \<le> n" and "n \<le> 255"
  shows "\<exists>r s'. run (map Tick (replicate (n - 1) False @ [True])) (r0, s) = Some (r, s') \<and>
           (n < 4 \<longrightarrow> sampling_state s' = 2) \<and>
           (4 \<le> n \<and> n < 7 \<longrightarrow> sampling_state s' = 1 \<and> count s' = 0) \<and>
           (7 \<le> n \<longrightarrow> sampling_state s' = 0)"
proof -
  from assms(3) obtain m where n: "n = Suc m" by (cases n) auto
  from low_ticks_count [OF assms(1), of m r0] assms(2) obtain r2 s2 where
    s2: "run (replicate m (Tick False)) (r0, s) = Some (r2, s2)"
      "sampling_state s2 = 2" "count s2 = of_nat m"
    by auto
  have c: "count s2 + 1 = of_nat n" using s2(3) n by simp
  have r: "run (map Tick (replicate (n - 1) False @ [True])) (r0, s) =
      Some (False, TIMER1_COMPA_vect True s2)"
    using s2(1) by (simp add: n run_append)
  have le: "((of_nat n :: byte) < 4) = (n < 4)" "((4::byte) \<le> of_nat n) = (4 \<le> n)"
    "((of_nat n :: byte) < 7) = (n < 7)" "((7::byte) \<le> of_nat n) = (7 \<le> n)"
    using byte_of_nat_less [OF assms(4), of 4] byte_of_nat_le [OF assms(4), of 4]
      byte_of_nat_less [OF assms(4), of 7] byte_of_nat_le [OF assms(4), of 7]
    by simp_all
  from idle_gap_tick [OF s2(2), of True] show ?thesis
    unfolding r c le by auto
qed

text \<open>
  C4. The claim: once the idle-gap count is at or above the desynchronisation
  threshold the sampler resets to waiting. The code breaks it in two ways. The
  threshold is tested only on a tick that samples the line HIGH, so while the pulse has
  not arrived nothing resets the sampler: after a pulse and 10 LOW ticks it is still in
  the idle-gap state with count 10. And \<open>count\<close> is a byte that wraps at 256: after a
  pulse, 259 LOW ticks and a HIGH tick the counter reads 4, and the sampler proceeds
  to acquire a pulse (\<open>sampling_state = 1\<close>) after a gap of 260 ticks.
\<close>

theorem long_gap_no_reset:
  "run (map Tick (pulse True @ replicate 10 False)) (False, wh2_init) =
     Some (False, \<lparr>wh2_flags = 3, wh2_packet_state = 0, wh2_timeout = 0,
       wh2_packet = [0, 0, 0, 0, 0], wh2_calculated_crc = 0,
       sampling_state = 2, count = 10, was_low = False, packet_no = 0,
       bit_no = 0, history = 0\<rparr>) \<and>
   run (map Tick (pulse True @ replicate 259 False @ [True])) (False, wh2_init) =
     Some (False, \<lparr>wh2_flags = 3, wh2_packet_state = 0, wh2_timeout = 0,
       wh2_packet = [0, 0, 0, 0, 0], wh2_calculated_crc = 0,
       sampling_state = 1, count = 0, was_low = False, packet_no = 0,
       bit_no = 0, history = 0\<rparr>)"
  by code_simp

section \<open>The frame decoder: preamble\<close>

lemma byte_index_cases: "n < 8 \<Longrightarrow> n \<in> {0, 1, 2, 3, 4, 5, 6, 7::nat}"
  by auto

lemma bit_7_byte: "bit (7::byte) n = (n < 3)"
proof (cases "n < 8")
  case True
  from byte_index_cases [OF this] show ?thesis by auto
next
  case False
  then show ?thesis using bit_imp_le_length [of "7::byte" n] by auto
qed

lemma bit_6_byte: "bit (6::byte) n = (n = 1 \<or> n = 2)"
proof (cases "n < 8")
  case True
  from byte_index_cases [OF this] show ?thesis by auto
next
  case False
  then show ?thesis using bit_imp_le_length [of "6::byte" n] by auto
qed

lemma and_7_eq_6: "(h AND 0x07 = 0x06) = sync_110 (h::byte)"
proof
  assume "h AND 0x07 = 0x06"
  then have "bit (h AND 7) n = bit (6::byte) n" for n by simp
  from this [of 0] this [of 1] this [of 2] show "sync_110 h"
    by (simp add: sync_110_def bit_and_iff bit_7_byte bit_6_byte del: bit_numeral_word_iff)
next
  assume a: "sync_110 h"
  show "h AND 0x07 = 0x06"
  proof (rule bit_eqI)
    fix n
    show "bit (h AND 7) n = bit (6::byte) n"
      using a by (cases "n = 0")
        (auto simp add: sync_110_def bit_and_iff bit_7_byte bit_6_byte
          simp del: bit_numeral_word_iff)
  qed
qed

lemma accept_seeking:
  assumes "wh2_packet_state s = 1"
  shows "wh2_accept s = Some (False,
     (let h = push_bit 1 (history s) OR (if wh2_flags s AND LOGIC_HI \<noteq> 0 then 1 else 0)
      in if h AND 0x07 = 0x06
         then s\<lparr>history := h, packet_no := 0, bit_no := 1, wh2_packet := [0, 0, 0, 0, 0],
                 wh2_packet_state := 2\<rparr>
         else s\<lparr>history := h\<rparr>))"
  using assms by (simp add: wh2_accept_def Let_def)

lemma accept_idle:
  assumes "wh2_packet_state s = 0"
  shows "wh2_accept s = Some (False,
     (if wh2_flags s AND LOGIC_HI \<noteq> 0
      then s\<lparr>history := 0xFF, wh2_packet_state := 1, wh2_timeout := 1\<rparr>
      else s\<lparr>history := 0xFE, wh2_packet_state := 2, wh2_timeout := 1,
              packet_no := 0, bit_no := 1, wh2_packet := [0, 0, 0, 0, 0]\<rparr>))"
  using assms by (simp add: wh2_accept_def Let_def)

text \<open>
  C5. In the seeking-preamble state (\<open>wh2_packet_state = 1\<close>) \<open>wh2_accept\<close> shifts the
  new bit into the history register and returns false; the frame state becomes
  accumulating-bits (2) when the three least-significant bits of the shifted register
  read 1,1,0, and stays seeking-preamble for every other register value.
\<close>

theorem preamble_detection:
  assumes "wh2_packet_state s = 1"
  shows "\<exists>s'. wh2_accept s = Some (False, s') \<and>
           history s' =
             push_bit 1 (history s) OR (if wh2_flags s AND LOGIC_HI \<noteq> 0 then 1 else 0) \<and>
           (sync_110 (history s') \<longrightarrow> wh2_packet_state s' = 2) \<and>
           (\<not> sync_110 (history s') \<longrightarrow> wh2_packet_state s' = 1)"
  using assms by (simp add: accept_seeking Let_def and_7_eq_6)

theorem preamble_detection_witness:
  "wh2_packet_state (wh2_init\<lparr>wh2_packet_state := 1, history := 0x03, wh2_flags := 1\<rparr>) = 1 \<and>
   (\<exists>s'. wh2_accept (wh2_init\<lparr>wh2_packet_state := 1, history := 0x03, wh2_flags := 1\<rparr>)
            = Some (False, s') \<and> history s' = 0x06 \<and> wh2_packet_state s' = 2) \<and>
   (\<exists>s'. wh2_accept (wh2_init\<lparr>wh2_packet_state := 1, history := 0x03, wh2_flags := 3\<rparr>)
            = Some (False, s') \<and> history s' = 0x07 \<and> wh2_packet_state s' = 1)"
  using preamble_detection [of "wh2_init\<lparr>wh2_packet_state := 1, history := 0x03, wh2_flags := 1\<rparr>"]
    preamble_detection [of "wh2_init\<lparr>wh2_packet_state := 1, history := 0x03, wh2_flags := 3\<rparr>"]
  by (simp add: wh2_init_def accept_seeking LOGIC_HI_def)

text \<open>
  C9. Called in the idle state (\<open>wh2_packet_state = 0\<close>), \<open>wh2_accept\<close> seeds the history
  with 0xFF and processes the triggering bit in the same call, as if it had been called
  in the seeking-preamble state with history 0xFF. A 0-bit therefore gives history 0xFE,
  which passes the preamble test: the packet buffer is cleared and the frame state is
  accumulating-bits, with no 1-bit received. A 1-bit leaves it seeking the preamble.
\<close>

theorem idle_seed:
  assumes "wh2_packet_state s = 0"
  shows "wh2_accept s =
           wh2_accept (s\<lparr>history := 0xFF, wh2_packet_state := 1, wh2_timeout := 1\<rparr>) \<and>
         wh2_accept s = Some (False,
           (if wh2_flags s AND LOGIC_HI \<noteq> 0
            then s\<lparr>history := 0xFF, wh2_packet_state := 1, wh2_timeout := 1\<rparr>
            else s\<lparr>history := 0xFE, wh2_packet_state := 2, wh2_timeout := 1,
                    packet_no := 0, bit_no := 1, wh2_packet := [0, 0, 0, 0, 0]\<rparr>))"
  using assms by (simp add: wh2_accept_def Let_def)

theorem idle_seed_witness:
  "wh2_packet_state (wh2_init\<lparr>wh2_flags := 1, wh2_packet := [1, 2, 3, 4, 5]\<rparr>) = 0 \<and>
   wh2_accept (wh2_init\<lparr>wh2_flags := 1, wh2_packet := [1, 2, 3, 4, 5]\<rparr>) =
     Some (False, wh2_init\<lparr>wh2_flags := 1, history := 0xFE, wh2_packet_state := 2,
       wh2_timeout := 1, packet_no := 0, bit_no := 1, wh2_packet := [0, 0, 0, 0, 0]\<rparr>)"
  using idle_seed [of "wh2_init\<lparr>wh2_flags := 1, wh2_packet := [1, 2, 3, 4, 5]\<rparr>"]
  by (simp add: wh2_init_def LOGIC_HI_def wh2_accept_def Let_def)

section \<open>What the interrupt handler changes\<close>

lemma sampler_switch_frame [simp]:
  "wh2_packet (sampler_switch rf s) = wh2_packet s"
  "packet_no (sampler_switch rf s) = packet_no s"
  "bit_no (sampler_switch rf s) = bit_no s"
  "history (sampler_switch rf s) = history s"
  "wh2_timeout (sampler_switch rf s) = wh2_timeout s"
  "wh2_calculated_crc (sampler_switch rf s) = wh2_calculated_crc s"
  by (simp_all add: sampler_switch_def Let_def)

lemma sampler_switch_packet_state:
  "wh2_packet_state (sampler_switch rf s) =
     (if sampling_state s = 0 then 0 else wh2_packet_state s)"
  by (simp add: sampler_switch_def Let_def)

lemma timeout_check_frame [simp]:
  "packet_no (timeout_check s) = packet_no s"
  "bit_no (timeout_check s) = bit_no s"
  "history (timeout_check s) = history s"
  "wh2_calculated_crc (timeout_check s) = wh2_calculated_crc s"
  by (simp_all add: timeout_check_def Let_def)

lemma timeout_check_packet_state:
  "wh2_packet_state (timeout_check s) = (if timeout_fires s then 0 else wh2_packet_state s)"
  by (simp add: timeout_check_def timeout_fires_def Let_def)

text \<open>
  C8, as stated, fails: the handler writes \<open>wh2_packet_state\<close>. After a preamble and a
  malformed pulse of 4 ticks the frame state is accumulating-bits (2) and the sampler
  is waiting; the next tick sets the frame state to idle (0).
\<close>

theorem isr_frame_state_counterexample:
  "run (polled (pulse True @ pulse False @
                [False, False, False, True, True, True, True, False])) (False, wh2_init) =
     Some (False, \<lparr>wh2_flags = 0, wh2_packet_state = 2, wh2_timeout = 20,
       wh2_packet = [0, 0, 0, 0, 0], wh2_calculated_crc = 0,
       sampling_state = 0, count = 4, was_low = False, packet_no = 0,
       bit_no = 1, history = 0xFE\<rparr>) \<and>
   wh2_packet_state (TIMER1_COMPA_vect False
     \<lparr>wh2_flags = 0, wh2_packet_state = 2, wh2_timeout = 20,
       wh2_packet = [0, 0, 0, 0, 0], wh2_calculated_crc = 0,
       sampling_state = 0, count = 4, was_low = False, packet_no = 0,
       bit_no = 1, history = 0xFE\<rparr>) = 0"
  by code_simp

text \<open>
  C8, amended. The interrupt handler never changes the packet buffer (nor the byte and
  bit position and the history of \<open>wh2_accept\<close>). It changes the frame state in one way
  only: it sets it to idle (0) when the sampler is in its waiting state at this tick or
  when the packet timeout fires at this tick; otherwise the frame state is unchanged.
\<close>

theorem isr_frame_effect:
  "wh2_packet (TIMER1_COMPA_vect rf s) = wh2_packet s \<and>
   packet_no (TIMER1_COMPA_vect rf s) = packet_no s \<and>
   bit_no (TIMER1_COMPA_vect rf s) = bit_no s \<and>
   history (TIMER1_COMPA_vect rf s) = history s \<and>
   wh2_packet_state (TIMER1_COMPA_vect rf s) =
     (if sampling_state s = 0 \<or> timeout_fires s then 0 else wh2_packet_state s)"
  by (simp add: TIMER1_COMPA_vect_def timeout_check_packet_state sampler_switch_packet_state
      timeout_fires_def)

section \<open>The checksum\<close>

lemma bit_0x80_byte: "bit (0x80::byte) n = (n = 7)"
proof (cases "n < 8")
  case True
  from byte_index_cases [OF this] show ?thesis by auto
next
  case False
  then show ?thesis using bit_imp_le_length [of "0x80::byte" n] by auto
qed

lemma and_0x80: "(x AND 0x80 \<noteq> 0) = bit (x::byte) 7"
proof
  assume "x AND 0x80 \<noteq> 0"
  then obtain n where "bit (x AND 0x80) n"
    by (auto simp add: bit_eq_iff simp del: bit_numeral_word_iff)
  then show "bit x 7"
    by (auto simp add: bit_and_iff bit_0x80_byte simp del: bit_numeral_word_iff)
next
  assume "bit x 7"
  then have "bit (x AND 0x80) 7"
    by (simp add: bit_and_iff bit_0x80_byte del: bit_numeral_word_iff)
  then show "x AND 0x80 \<noteq> 0" by auto
qed

lemma crc8_bit_step:
  "crc8_bit (crc, inbyte) = (checksum_step crc (bit inbyte 7), push_bit 1 inbyte)"
  by (auto simp add: crc8_bit_def checksum_step_def Let_def and_0x80 bit_xor_iff)

lemma crc8_bit_shifted:
  assumes "k \<le> 7"
  shows "crc8_bit (crc, push_bit k x) = (checksum_step crc (bit x (7 - k)), push_bit (Suc k) x)"
  using assms by (simp add: crc8_bit_step bit_push_bit_iff)

lemma crc8_bit_iter:
  "n \<le> 8 \<Longrightarrow> (crc8_bit ^^ n) (crc, x) =
     (foldl checksum_step crc (map (\<lambda>i. bit x (7 - i)) [0..<n]), push_bit n x)"
proof (induction n)
  case 0
  show ?case by simp
next
  case (Suc n)
  then have "n \<le> 7" by simp
  with Suc show ?case by (simp add: crc8_bit_shifted)
qed

lemma upt_8: "[0..<8] = [0, 1, 2, 3, 4, 5, 6, 7::nat]"
  by code_simp

lemma crc8_byte_bits: "crc8_byte crc inbyte = foldl checksum_step crc (bits_of inbyte)"
proof -
  have "crc8_byte crc inbyte = fst ((crc8_bit ^^ 8) (crc, inbyte))"
    by (simp add: crc8_byte_def numeral_eq_Suc)
  also have "\<dots> = foldl checksum_step crc (map (\<lambda>i. bit inbyte (7 - i)) [0..<8])"
    by (simp add: crc8_bit_iter del: upt_Suc)
  also have "\<dots> = foldl checksum_step crc (bits_of inbyte)"
    unfolding upt_8 by (simp add: bits_of_def)
  finally show ?thesis .
qed

lemma crc8_from_bits:
  "crc8_from crc bytes = foldl checksum_step crc (concat (map bits_of bytes))"
  by (induction bytes arbitrary: crc) (simp_all add: crc8_byte_bits)

lemma crc8_is_checksum: "crc8 bytes = checksum bytes"
  by (simp add: crc8_def checksum_def crc8_from_bits)

lemma calculate_crc_packet [simp]: "wh2_packet (wh2_calculate_crc s) = wh2_packet s"
  by (simp add: wh2_calculate_crc_def)

lemma calculate_crc_value:
  "wh2_calculated_crc (wh2_calculate_crc s) = checksum (take 4 (wh2_packet s))"
  by (simp add: wh2_calculate_crc_def crc8_is_checksum)

text \<open>
  C6. \<open>crc8\<close> computes the checksum worded in the specification: a function of its
  input bytes alone, starting from 0, each byte most-significant bit first, shifting
  left and XOR-ing 0x31 when the mixed top bit is set; its result is one byte (by its
  type). \<open>wh2_calculate_crc\<close> stores this checksum of packet bytes 0..3 and changes
  nothing else, and after it \<open>wh2_valid\<close> holds exactly when that checksum equals packet
  byte 4. The same holds in the state in which the main loop reports a packet.
\<close>

theorem checksum_validity:
  "crc8 bytes = checksum bytes \<and>
   wh2_calculate_crc s = s\<lparr>wh2_calculated_crc := checksum (take 4 (wh2_packet s))\<rparr> \<and>
   wh2_valid (wh2_calculate_crc s) =
     (checksum (take 4 (wh2_packet s)) = wh2_packet s ! 4) \<and>
   (\<forall>s'. loop s = Some (True, s') \<longrightarrow>
      wh2_valid s' = (checksum (take 4 (wh2_packet s')) = wh2_packet s' ! 4))"
proof -
  have "wh2_valid s' = (checksum (take 4 (wh2_packet s')) = wh2_packet s' ! 4)"
    if "loop s = Some (True, s')" for s'
  proof -
    from that obtain s1 where "s' = (wh2_calculate_crc s1)\<lparr>wh2_flags := 0x00\<rparr>"
      by (auto simp add: loop_def split: if_splits option.splits)
    then show ?thesis by (simp add: wh2_valid_def calculate_crc_value)
  qed
  then show ?thesis
    by (simp add: crc8_is_checksum wh2_calculate_crc_def wh2_valid_def)
qed

theorem checksum_validity_witness:
  "loop (wh2_init\<lparr>wh2_packet_state := 2, packet_no := 4, bit_no := 7, wh2_flags := 3,
           wh2_packet := [0x01, 0x23, 0x45, 0x32, 0x38]\<rparr>) =
     Some (True, wh2_init\<lparr>wh2_packet_state := 0, packet_no := 5, bit_no := 0, wh2_flags := 0,
           wh2_packet := [0x01, 0x23, 0x45, 0x32, 0x71], wh2_calculated_crc := 0x71\<rparr>) \<and>
   wh2_valid (wh2_init\<lparr>wh2_packet_state := 0, packet_no := 5, bit_no := 0, wh2_flags := 0,
           wh2_packet := [0x01, 0x23, 0x45, 0x32, 0x71], wh2_calculated_crc := 0x71\<rparr>) \<and>
   checksum [0x01, 0x23, 0x45, 0x32] = 0x71"
proof -
  have l: "loop (wh2_init\<lparr>wh2_packet_state := 2, packet_no := 4, bit_no := 7, wh2_flags := 3,
           wh2_packet := [0x01, 0x23, 0x45, 0x32, 0x38]\<rparr>) =
     Some (True, wh2_init\<lparr>wh2_packet_state := 0, packet_no := 5, bit_no := 0, wh2_flags := 0,
           wh2_packet := [0x01, 0x23, 0x45, 0x32, 0x71], wh2_calculated_crc := 0x71\<rparr>)"
    by code_simp
  have c: "checksum [0x01, 0x23, 0x45, 0x32] = 0x71"
    by code_simp
  from checksum_validity [of "[]" "wh2_init\<lparr>wh2_packet_state := 2, packet_no := 4, bit_no := 7,
      wh2_flags := 3, wh2_packet := [0x01, 0x23, 0x45, 0x32, 0x38]\<rparr>"] l c
  show ?thesis by simp
qed

section \<open>The first byte of a received packet\<close>

lemma unat_eqD: "unat (w::byte) = n \<Longrightarrow> w = of_nat n"
  by auto

lemma byte_le_7_cases: "(w::byte) \<le> 7 \<Longrightarrow> w \<in> {0, 1, 2, 3, 4, 5, 6, 7}"
proof -
  assume "w \<le> 7"
  then have "unat w \<le> 7" by (simp add: word_le_nat_alt)
  then have "unat w \<in> {0, 1, 2, 3, 4, 5, 6, 7}" by auto
  then show ?thesis by (auto dest!: unat_eqD)
qed

lemma byte_le_4_cases: "(w::byte) \<le> 4 \<Longrightarrow> w \<in> {0, 1, 2, 3, 4}"
proof -
  assume "w \<le> 4"
  then have "unat w \<le> 4" by (simp add: word_le_nat_alt)
  then have "unat w \<in> {0, 1, 2, 3, 4}" by auto
  then show ?thesis by (auto dest!: unat_eqD)
qed

lemma shift_in_bound:
  assumes "unat (p::byte) < 2 ^ k" and "k \<le> 6"
  shows "unat (push_bit 1 p OR (if b then 1 else 0)) < 2 ^ Suc k"
proof -
  have "(2::nat) ^ k \<le> 2 ^ 6" using assms(2) by (intro power_increasing) simp_all
  with assms(1) have small: "unat p < 64" by simp
  then have u: "unat (2 * p) = 2 * unat p"
    by (simp add: unat_word_ariths)
  have "unat (push_bit 1 p OR (if b then 1 else 0)) \<le> 2 * unat p + 1"
  proof (cases b)
    case True
    have "unat (2 * p + 1) \<le> unat (2 * p) + unat (1::byte)"
      by (simp add: unat_word_ariths)
    then show ?thesis using True u by (simp add: push_bit_eq_mult or_one_eq mult.commute)
  next
    case False
    then show ?thesis using u by (simp add: push_bit_eq_mult mult.commute)
  qed
  moreover have "2 * unat p + 1 < 2 ^ Suc k" using assms(1) by simp
  ultimately show ?thesis by simp
qed

lemma frame_inv_init: "frame_inv wh2_init"
  by (simp add: frame_inv_def wh2_init_def)

lemma frame_inv_isr: "frame_inv s \<Longrightarrow> frame_inv (TIMER1_COMPA_vect rf s)"
  by (auto simp add: frame_inv_def TIMER1_COMPA_vect_def timeout_check_packet_state
      sampler_switch_packet_state)

lemma frame_inv_accept_01:
  assumes "frame_inv s" and "wh2_packet_state s \<noteq> 2"
  shows "\<exists>s'. wh2_accept s = Some (False, s') \<and> frame_inv s'"
proof -
  from assms have "wh2_packet_state s = 0 \<or> wh2_packet_state s = 1"
    by (auto simp add: frame_inv_def)
  then show ?thesis
  proof
    assume "wh2_packet_state s = 0"
    with assms(1) show ?thesis by (simp add: accept_idle frame_inv_def)
  next
    assume "wh2_packet_state s = 1"
    with assms(1) show ?thesis by (simp add: accept_seeking frame_inv_def Let_def)
  qed
qed

lemma accept_first_byte:
  assumes "wh2_packet_state s = 2" and "packet_no s = 0" and "length (wh2_packet s) = 5"
    and "1 \<le> bit_no s" and "bit_no s \<le> 7"
    and "unat (wh2_packet s ! 0) < 2 ^ (unat (bit_no s) - 1)"
  shows "\<exists>s'. wh2_accept s = Some (False, s') \<and> frame_inv s'"
proof -
  let ?b = "wh2_flags s AND LOGIC_HI \<noteq> 0"
  let ?v = "push_bit 1 (wh2_packet s ! 0) OR (if ?b then 1 else 0)"
  from assms(4,5) have k: "unat (bit_no s) - 1 \<le> 6" "1 \<le> unat (bit_no s)"
    by (simp_all add: word_le_nat_alt)
  from shift_in_bound [OF assms(6) k(1), of ?b] k(2)
  have v: "unat ?v < 2 ^ unat (bit_no s)" by simp
  from byte_le_7_cases [OF assms(5)] assms(4)
  have "bit_no s \<in> {1, 2, 3, 4, 5, 6, 7}" by auto
  then show ?thesis
    using assms(1,2,3) v
    by (auto simp add: wh2_accept_def Let_def frame_inv_def word_le_nat_alt)
qed

lemma accept_later_bytes:
  assumes "wh2_packet_state s = 2" and "packet_no s \<noteq> 0" and "packet_no s \<le> 4"
    and "bit_no s \<le> 7" and "length (wh2_packet s) = 5" and "wh2_packet s ! 0 \<le> 0x7F"
  shows "\<exists>r s'. wh2_accept s = Some (r, s') \<and> frame_inv s' \<and>
           wh2_packet s' ! 0 = wh2_packet s ! 0"
proof -
  from byte_le_4_cases [OF assms(3)] assms(2)
  have pn: "packet_no s \<in> {1, 2, 3, 4}" by auto
  show ?thesis
  proof (cases "7 < bit_no s + 1")
    case True
    with pn assms(1,5,6) show ?thesis
      by (auto simp add: wh2_accept_def Let_def frame_inv_def)
  next
    case False
    then have "bit_no s + 1 \<le> 7" by (simp add: not_less)
    with False pn assms(1,5,6) show ?thesis
      by (auto simp add: wh2_accept_def Let_def frame_inv_def)
  qed
qed

lemma frame_inv_accept:
  assumes "frame_inv s"
  shows "\<exists>r s'. wh2_accept s = Some (r, s') \<and> frame_inv s' \<and>
           (r \<longrightarrow> wh2_packet s' ! 0 \<le> 0x7F)"
proof (cases "wh2_packet_state s = 2")
  case False
  with assms frame_inv_accept_01 [of s] show ?thesis by auto
next
  case True
  show ?thesis
  proof (cases "packet_no s = 0")
    case True
    with assms \<open>wh2_packet_state s = 2\<close> accept_first_byte [of s] show ?thesis
      by (auto simp add: frame_inv_def)
  next
    case False
    with assms \<open>wh2_packet_state s = 2\<close> accept_later_bytes [of s] show ?thesis
      by (auto simp add: frame_inv_def)
  qed
qed

lemma frame_inv_flags: "frame_inv (s\<lparr>wh2_flags := f\<rparr>) = frame_inv s"
  by (simp add: frame_inv_def)

lemma frame_inv_crc: "frame_inv (wh2_calculate_crc s) = frame_inv s"
  by (simp add: frame_inv_def wh2_calculate_crc_def)

lemma frame_inv_loop:
  assumes "frame_inv s"
  shows "\<exists>r s'. loop s = Some (r, s') \<and> frame_inv s' \<and> (r \<longrightarrow> wh2_packet s' ! 0 \<le> 0x7F)"
proof (cases "wh2_flags s \<noteq> 0")
  case False
  with assms show ?thesis by (auto simp add: loop_def)
next
  case True
  from frame_inv_accept [OF assms] obtain r s1 where
    a: "wh2_accept s = Some (r, s1)" "frame_inv s1" "r \<longrightarrow> wh2_packet s1 ! 0 \<le> 0x7F"
    by blast
  with True show ?thesis
    by (simp add: loop_def frame_inv_flags frame_inv_crc)
qed

lemma frame_inv_step:
  assumes "frame_inv s"
  shows "\<exists>r s'. step e s = Some (r, s') \<and> frame_inv s' \<and> (r \<longrightarrow> wh2_packet s' ! 0 \<le> 0x7F)"
proof (cases e)
  case (Tick rf)
  with assms show ?thesis by (auto simp add: frame_inv_isr)
next
  case Pass
  with frame_inv_loop [OF assms] show ?thesis by simp
qed

lemma frame_inv_run:
  assumes "frame_inv s" and "r0 \<longrightarrow> wh2_packet s ! 0 \<le> 0x7F"
  shows "\<exists>r s'. run evs (r0, s) = Some (r, s') \<and> frame_inv s' \<and>
           (r \<longrightarrow> wh2_packet s' ! 0 \<le> 0x7F)"
  using assms
proof (induction evs arbitrary: r0 s)
  case Nil
  then show ?case by simp
next
  case (Cons e evs)
  from frame_inv_step [OF Cons.prems(1), of e] obtain r1 s1 where
    st: "step e s = Some (r1, s1)" "frame_inv s1" "r1 \<longrightarrow> wh2_packet s1 ! 0 \<le> 0x7F"
    by blast
  from Cons.IH [OF st(2,3)] st(1) show ?case by simp
qed

text \<open>
  The transmission of \<open>[0x01, 0x23, 0x45, 0x32, 0x71]\<close>, polled after every tick, from
  the initial state: the last pass reports a packet.
\<close>

lemma decode_example:
  "run (polled (transmission [0x01, 0x23, 0x45, 0x32, 0x71])) (False, wh2_init) =
     Some (True, \<lparr>wh2_flags = 0, wh2_packet_state = 0, wh2_timeout = 0,
       wh2_packet = [0x01, 0x23, 0x45, 0x32, 0x71], wh2_calculated_crc = 0x71,
       sampling_state = 2, count = 0, was_low = False, packet_no = 5,
       bit_no = 0, history = 0xFE\<rparr>)"
  by code_simp

lemma crc8_example: "crc8 [0x01, 0x23, 0x45, 0x32] = 0x71"
  by code_simp

text \<open>
  C10. In every run of the program from its initial state, with any pin levels and
  any interleaving of ticks and passes of the main loop, no step is undefined, and a
  packet reported ready has its first byte at most 0x7F.
\<close>

theorem ready_first_byte:
  "run evs (False, wh2_init) \<noteq> None \<and>
   (\<forall>s. run evs (False, wh2_init) = Some (True, s) \<longrightarrow> wh2_packet s ! 0 \<le> 0x7F)"
  using frame_inv_run [OF frame_inv_init, of False evs] by auto

theorem ready_first_byte_witness:
  "run (polled (transmission [0x01, 0x23, 0x45, 0x32, 0x71])) (False, wh2_init) =
     Some (True, \<lparr>wh2_flags = 0, wh2_packet_state = 0, wh2_timeout = 0,
       wh2_packet = [0x01, 0x23, 0x45, 0x32, 0x71], wh2_calculated_crc = 0x71,
       sampling_state = 2, count = 0, was_low = False, packet_no = 5,
       bit_no = 0, history = 0xFE\<rparr>) \<and>
   [0x01, 0x23, 0x45, 0x32, 0x71] ! 0 \<le> (0x7F::byte)"
  using ready_first_byte [of "polled (transmission [0x01, 0x23, 0x45, 0x32, 0x71])"]
    decode_example
  by simp

section \<open>End-to-end decoding\<close>

text \<open>
  The transmission of \<open>[0x81, 0x23, 0x45, 0x32, 0x80]\<close> (0x80 is the checksum of the
  first four bytes): the preamble is matched one bit late, at the first 0 of 0x81, and
  the run ends with the buffer holding the bits shifted by one, one bit short of a
  packet.
\<close>

lemma crc8_0x81_example: "crc8 [0x81, 0x23, 0x45, 0x32] = 0x80"
  by code_simp

lemma transmission_0x81_example:
  "run (polled (transmission [0x81, 0x23, 0x45, 0x32, 0x80])) (False, wh2_init) =
     Some (False, \<lparr>wh2_flags = 0, wh2_packet_state = 2, wh2_timeout = 423,
       wh2_packet = [0x02, 0x46, 0x8A, 0x65, 0x00], wh2_calculated_crc = 0,
       sampling_state = 2, count = 0, was_low = False, packet_no = 4,
       bit_no = 7, history = 0xFE\<rparr>)"
  by code_simp

text \<open>
  C1, as stated, fails twice. No run of the program, whatever its input, reports a
  packet whose first byte is 0x81. And on a buffer holding the bytes
  \<open>[0x81, 0x23, 0x45, 0x32, crc8 [0x81, 0x23, 0x45, 0x32]]\<close> the function
  \<open>wh2_temperature\<close> returns 837 (0x345: the low three bits of 0x23 are 011), not 325.
\<close>

theorem end_to_end_0x81_counterexample:
  "\<not> (\<exists>evs s. run evs (False, wh2_init) = Some (True, s) \<and>
         wh2_packet s = [0x81, 0x23, 0x45, 0x32, crc8 [0x81, 0x23, 0x45, 0x32]]) \<and>
   sint (wh2_temperature
     (wh2_init\<lparr>wh2_packet := [0x81, 0x23, 0x45, 0x32, crc8 [0x81, 0x23, 0x45, 0x32]]\<rparr>))
     \<noteq> 325"
proof
  show "\<not> (\<exists>evs s. run evs (False, wh2_init) = Some (True, s) \<and>
         wh2_packet s = [0x81, 0x23, 0x45, 0x32, crc8 [0x81, 0x23, 0x45, 0x32]])"
  proof
    assume "\<exists>evs s. run evs (False, wh2_init) = Some (True, s) \<and>
           wh2_packet s = [0x81, 0x23, 0x45, 0x32, crc8 [0x81, 0x23, 0x45, 0x32]]"
    then obtain evs s where r: "run evs (False, wh2_init) = Some (True, s)"
      and p: "wh2_packet s = [0x81, 0x23, 0x45, 0x32, crc8 [0x81, 0x23, 0x45, 0x32]]"
      by blast
    from frame_inv_run [OF frame_inv_init, of False evs] r
    have "wh2_packet s ! 0 \<le> 0x7F" by auto
    with p show False by simp
  qed
  show "sint (wh2_temperature
     (wh2_init\<lparr>wh2_packet := [0x81, 0x23, 0x45, 0x32, crc8 [0x81, 0x23, 0x45, 0x32]]\<rparr>))
     \<noteq> 325"
    by (simp add: wh2_temperature_def)
qed

text \<open>
  C1, amended. With the first byte 0x01 (its most-significant bit, clear, is the 0 that
  ends the preamble): for the pin samples of eight preamble 1-bits followed by the bits
  of \<open>[0x01, 0x23, 0x45, 0x32, crc8 [0x01, 0x23, 0x45, 0x32]]\<close>, with the main loop
  polling after every tick, the last pass reports a packet; the buffer equals these
  5 bytes, \<open>wh2_valid\<close> is true, the sensor id is 0x012, the humidity 50 and the
  temperature +837 (0x345, 83.7 degrees).
\<close>

theorem end_to_end_decode:
  "\<exists>s. run (polled (transmission [0x01, 0x23, 0x45, 0x32, crc8 [0x01, 0x23, 0x45, 0x32]]))
          (False, wh2_init) = Some (True, s) \<and>
       wh2_packet s = [0x01, 0x23, 0x45, 0x32, crc8 [0x01, 0x23, 0x45, 0x32]] \<and>
       wh2_valid s \<and>
       sint (wh2_sensor_id s) = 0x012 \<and>
       wh2_humidity s = 50 \<and>
       sint (wh2_temperature s) = 837"
  unfolding crc8_example decode_example
  by (simp add: wh2_valid_def wh2_sensor_id_def wh2_humidity_def wh2_temperature_def)

section \<open>The frame decoder: accumulation\<close>

lemma pulse_flags_hi [simp]: "(pulse_flags b AND LOGIC_HI \<noteq> 0) = b" "pulse_flags b \<noteq> 0"
  by (simp_all add: pulse_flags_def macro_defs)





lemma accept_accumulating:
  assumes "wh2_packet_state s = 2" and "unat (packet_no s) < 5"
    and "length (wh2_packet s) = 5"
  shows "wh2_accept s =
    (let i = unat (packet_no s);
         p = (wh2_packet s)[i := shift_in (wh2_packet s ! i) (wh2_flags s AND LOGIC_HI \<noteq> 0)];
         pn = (if 7 < bit_no s + 1 then packet_no s + 1 else packet_no s);
         bn = (if 7 < bit_no s + 1 then 0 else bit_no s + 1)
     in if 4 < pn
        then Some (True, s\<lparr>wh2_packet := p, bit_no := bn, packet_no := pn,
                            wh2_packet_state := 0, wh2_timeout := 0\<rparr>)
        else Some (False, s\<lparr>wh2_packet := p, bit_no := bn, packet_no := pn\<rparr>))"
  using assms by (simp add: wh2_accept_def Let_def shift_in_def)

lemma accumulating_step:
  assumes "frame_inv s" and "wh2_packet_state s = 2"
  shows "\<exists>r s'. wh2_accept s = Some (r, s') \<and>
           r = (bits_accumulated s = 39) \<and>
           wh2_packet_state s' = (if r then 0 else 2) \<and>
           bits_accumulated s' = bits_accumulated s + 1 \<and>
           (r \<longrightarrow> wh2_timeout s' = 0)"
proof -
  from assms have pn4: "packet_no s \<le> 4" and bn7: "bit_no s \<le> 7"
    and len: "length (wh2_packet s) = 5"
    by (auto simp add: frame_inv_def)
  from pn4 have u: "unat (packet_no s) < 5" by (simp add: word_le_nat_alt)
  note acc = accept_accumulating [OF assms(2) u len]
  show ?thesis
  proof (cases "bit_no s = 7")
    case True
    from byte_le_4_cases [OF pn4] True assms(2) show ?thesis
      unfolding acc by (auto simp add: Let_def bits_accumulated_def)
  next
    case False
    with byte_le_7_cases [OF bn7] have bn: "bit_no s \<in> {0, 1, 2, 3, 4, 5, 6}" by auto
    from pn4 have n4: "\<not> 4 < packet_no s" by (simp add: not_less)
    from bn have n7: "\<not> 7 < bit_no s + 1" by auto
    from bn have ub: "unat (bit_no s + 1) = unat (bit_no s) + 1" by auto
    from bn have "unat (bit_no s) \<le> 6" by auto
    with u have ne: "bits_accumulated s \<noteq> 39" by (simp add: bits_accumulated_def)
    have "wh2_accept s = Some (False,
        s\<lparr>wh2_packet := (wh2_packet s)[unat (packet_no s) :=
              shift_in (wh2_packet s ! unat (packet_no s)) (wh2_flags s AND LOGIC_HI \<noteq> 0)],
          bit_no := bit_no s + 1, packet_no := packet_no s\<rparr>)"
      unfolding acc by (simp add: Let_def n4 n7)
    with ne ub assms(2) show ?thesis by (auto simp add: bits_accumulated_def)
  qed
qed

lemma isr_position [simp]: "bits_accumulated (TIMER1_COMPA_vect rf s) = bits_accumulated s"
  by (simp add: bits_accumulated_def TIMER1_COMPA_vect_def)

lemma isr_packet_state:
  "wh2_packet_state (TIMER1_COMPA_vect rf s) =
     (if sampling_state s = 0 \<or> timeout_fires s then 0 else wh2_packet_state s)"
  by (simp add: TIMER1_COMPA_vect_def timeout_check_packet_state sampler_switch_packet_state
      timeout_fires_def)

lemma sync_110_0xFE: "sync_110 0xFE"
  by (simp add: sync_110_def)

lemma frame_inv_position:
  assumes "frame_inv s" and "wh2_packet_state s = 2"
  shows "1 \<le> bits_accumulated s \<and> bits_accumulated s \<le> 39"
proof -
  from assms have "unat (packet_no s) \<le> 4" and "unat (bit_no s) \<le> 7"
    and "packet_no s = 0 \<longrightarrow> 1 \<le> unat (bit_no s)"
    by (auto simp add: frame_inv_def word_le_nat_alt)
  moreover have "packet_no s \<noteq> 0 \<longrightarrow> 1 \<le> unat (packet_no s)"
    by (simp add: unat_gt_0 Suc_le_eq)
  ultimately show ?thesis unfolding bits_accumulated_def by (cases "packet_no s = 0") auto
qed

lemma loop_not_accumulating:
  assumes "frame_inv s" and "wh2_packet_state s \<noteq> 2" and "loop s = Some (r, s')"
  shows "\<not> r \<and> (wh2_packet_state s' = 0 \<or> wh2_packet_state s' = 1 \<or> wh2_packet_state s' = 2) \<and>
         (wh2_packet_state s' = 2 \<longrightarrow>
            wh2_flags s \<noteq> 0 \<and> sync_110 (history s') \<and> wh2_packet s' = [0, 0, 0, 0, 0] \<and>
            bits_accumulated s' = 1)"
proof (cases "wh2_flags s = 0")
  case True
  with assms show ?thesis by (auto simp add: loop_def frame_inv_def)
next
  case False
  from assms(1,2) have "wh2_packet_state s = 0 \<or> wh2_packet_state s = 1"
    by (auto simp add: frame_inv_def)
  then show ?thesis
  proof
    assume "wh2_packet_state s = 0"
    with False assms(3) show ?thesis
      by (auto simp add: loop_def accept_idle bits_accumulated_def sync_110_0xFE
          split: if_splits)
  next
    assume "wh2_packet_state s = 1"
    with False assms(3) show ?thesis
      by (auto simp add: loop_def accept_seeking Let_def bits_accumulated_def and_7_eq_6
          split: if_splits)
  qed
qed

lemma loop_accumulating:
  assumes "frame_inv s" and "wh2_packet_state s = 2" and "loop s = Some (r, s')"
  shows "r = (wh2_flags s \<noteq> 0 \<and> bits_accumulated s = 39) \<and>
         wh2_packet_state s' = (if r then 0 else 2) \<and>
         bits_accumulated s' =
           (if wh2_flags s \<noteq> 0 then bits_accumulated s + 1 else bits_accumulated s) \<and>
         (r \<longrightarrow> wh2_timeout s' = 0)"
proof (cases "wh2_flags s = 0")
  case True
  with assms show ?thesis by (auto simp add: loop_def)
next
  case False
  from accumulating_step [OF assms(1,2)] obtain r1 s1 where
    a: "wh2_accept s = Some (r1, s1)" "r1 = (bits_accumulated s = 39)"
      "wh2_packet_state s1 = (if r1 then 0 else 2)"
      "bits_accumulated s1 = bits_accumulated s + 1" "r1 \<longrightarrow> wh2_timeout s1 = 0"
    by blast
  from a(3,4,5) have "wh2_packet_state (wh2_calculate_crc s1) = (if r1 then 0 else 2)"
    "bits_accumulated (wh2_calculate_crc s1) = bits_accumulated s + 1"
    "r1 \<longrightarrow> wh2_timeout (wh2_calculate_crc s1) = 0"
    by (simp_all add: wh2_calculate_crc_def bits_accumulated_def)
  with False a assms(3) show ?thesis
    by (auto simp add: loop_def bits_accumulated_def)
qed

text \<open>
  C2, as stated, fails: the frame state also returns to idle when the interrupt
  handler ticks while the pulse sampler is in its waiting state. After a preamble and
  an idle gap of 7 ticks the frame state is accumulating-bits (2) at bit position 1,
  the timeout does not fire, and the next tick sets the frame state to idle (0).
\<close>

theorem frame_state_cycle_counterexample:
  "run (polled (pulse True @ pulse False @ replicate 6 False @ [True])) (False, wh2_init) =
     Some (False, \<lparr>wh2_flags = 0, wh2_packet_state = 2, wh2_timeout = 19,
       wh2_packet = [0, 0, 0, 0, 0], wh2_calculated_crc = 0,
       sampling_state = 0, count = 7, was_low = False, packet_no = 0,
       bit_no = 1, history = 0xFE\<rparr>) \<and>
   bits_accumulated \<lparr>wh2_flags = 0, wh2_packet_state = 2, wh2_timeout = 19,
       wh2_packet = [0, 0, 0, 0, 0], wh2_calculated_crc = 0,
       sampling_state = 0, count = 7, was_low = False, packet_no = 0,
       bit_no = 1, history = 0xFE\<rparr> = 1 \<and>
   \<not> timeout_fires \<lparr>wh2_flags = 0, wh2_packet_state = 2, wh2_timeout = 19,
       wh2_packet = [0, 0, 0, 0, 0], wh2_calculated_crc = 0,
       sampling_state = 0, count = 7, was_low = False, packet_no = 0,
       bit_no = 1, history = 0xFE\<rparr> \<and>
   step (Tick True) \<lparr>wh2_flags = 0, wh2_packet_state = 2, wh2_timeout = 19,
       wh2_packet = [0, 0, 0, 0, 0], wh2_calculated_crc = 0,
       sampling_state = 0, count = 7, was_low = False, packet_no = 0,
       bit_no = 1, history = 0xFE\<rparr> =
     Some (False, \<lparr>wh2_flags = 0, wh2_packet_state = 0, wh2_timeout = 20,
       wh2_packet = [0, 0, 0, 0, 0], wh2_calculated_crc = 0,
       sampling_state = 0, count = 7, was_low = False, packet_no = 0,
       bit_no = 1, history = 0xFE\<rparr>)"
  by code_simp

text \<open>
  C2, amended. For every run of the program from its initial state and every step
  after it:
  the frame state becomes accumulating-bits (2) only in a pass of the main loop that
  hands a pulse to \<open>wh2_accept\<close> and leaves the history ending in 1,1,0, with the
  buffer cleared and the bit position 1 (the preamble's final 0 takes position 0);
  from accumulating-bits the position is between 1 and 39, every accepted bit advances
  it by one, and the frame state returns to idle (0) exactly when a pass accepts the
  bit that fills position 39 (the 40th of the 5 bytes), or the interrupt handler ticks
  with the packet timeout firing or with the sampler in its waiting state;
  \<open>wh2_accept\<close>, and so the pass, returns true exactly at that 5-byte completion, which
  also clears the timeout.
\<close>

theorem frame_state_cycle:
  assumes "run evs (False, wh2_init) = Some (r0, s)" and "step e s = Some (r, s')"
  shows "(wh2_packet_state s \<noteq> 2 \<and> wh2_packet_state s' = 2 \<longrightarrow>
            e = Pass \<and> wh2_flags s \<noteq> 0 \<and> sync_110 (history s') \<and>
            wh2_packet s' = [0, 0, 0, 0, 0] \<and> bits_accumulated s' = 1) \<and>
         (wh2_packet_state s = 2 \<longrightarrow>
            1 \<le> bits_accumulated s \<and> bits_accumulated s \<le> 39 \<and>
            (wh2_packet_state s' = 0 \<or> wh2_packet_state s' = 2) \<and>
            (wh2_packet_state s' = 0 \<longleftrightarrow>
               (e = Pass \<and> wh2_flags s \<noteq> 0 \<and> bits_accumulated s = 39) \<or>
               (\<exists>rf. e = Tick rf \<and> (sampling_state s = 0 \<or> timeout_fires s))) \<and>
            bits_accumulated s' =
              (if e = Pass \<and> wh2_flags s \<noteq> 0 then bits_accumulated s + 1
               else bits_accumulated s)) \<and>
         (r \<longleftrightarrow> e = Pass \<and> wh2_flags s \<noteq> 0 \<and> wh2_packet_state s = 2 \<and>
                 bits_accumulated s = 39) \<and>
         (r \<longrightarrow> bits_accumulated s' = 40 \<and> wh2_packet_state s' = 0 \<and> wh2_timeout s' = 0)"
proof -
  from frame_inv_run [OF frame_inv_init, of False evs] assms(1) have inv: "frame_inv s"
    by auto
  show ?thesis
  proof (cases e)
    case (Tick rf)
    with assms(2) have "s' = TIMER1_COMPA_vect rf s" and "\<not> r" by auto
    with inv Tick frame_inv_position [OF inv] show ?thesis
      by (auto simp add: isr_packet_state)
  next
    case Pass
    with assms(2) have l: "loop s = Some (r, s')" by simp
    show ?thesis
    proof (cases "wh2_packet_state s = 2")
      case True
      from loop_accumulating [OF inv True l] frame_inv_position [OF inv True] Pass True
      show ?thesis by auto
    next
      case False
      from loop_not_accumulating [OF inv False l] Pass False show ?thesis by auto
    qed
  qed
qed

lemma preamble_match_example:
  "run (polled (pulse True @ replicate 3 False @ replicate 7 True) @ [Tick False])
     (False, wh2_init) =
   Some (False, \<lparr>wh2_flags = 1, wh2_packet_state = 1, wh2_timeout = 12,
      wh2_packet = [0, 0, 0, 0, 0], wh2_calculated_crc = 0,
      sampling_state = 2, count = 0, was_low = False, packet_no = 0,
      bit_no = 0, history = 0xFF\<rparr>)"
  by code_simp

lemma last_bit_example:
  "run (butlast (polled (transmission [0x01, 0x23, 0x45, 0x32, 0x71]))) (False, wh2_init) =
   Some (False, \<lparr>wh2_flags = 3, wh2_packet_state = 2, wh2_timeout = 413,
      wh2_packet = [0x01, 0x23, 0x45, 0x32, 0x38], wh2_calculated_crc = 0,
      sampling_state = 2, count = 0, was_low = False, packet_no = 4,
      bit_no = 7, history = 0xFE\<rparr>)"
  by code_simp

theorem frame_state_cycle_witness:
  "run (polled (pulse True @ replicate 3 False @ replicate 7 True) @ [Tick False])
     (False, wh2_init) =
   Some (False, \<lparr>wh2_flags = 1, wh2_packet_state = 1, wh2_timeout = 12,
      wh2_packet = [0, 0, 0, 0, 0], wh2_calculated_crc = 0,
      sampling_state = 2, count = 0, was_low = False, packet_no = 0,
      bit_no = 0, history = 0xFF\<rparr>) \<and>
   step Pass \<lparr>wh2_flags = 1, wh2_packet_state = 1, wh2_timeout = 12,
      wh2_packet = [0, 0, 0, 0, 0], wh2_calculated_crc = 0,
      sampling_state = 2, count = 0, was_low = False, packet_no = 0,
      bit_no = 0, history = 0xFF\<rparr> =
   Some (False, \<lparr>wh2_flags = 0, wh2_packet_state = 2, wh2_timeout = 12,
      wh2_packet = [0, 0, 0, 0, 0], wh2_calculated_crc = 0,
      sampling_state = 2, count = 0, was_low = False, packet_no = 0,
      bit_no = 1, history = 0xFE\<rparr>) \<and>
   sync_110 0xFE \<and>
   run (butlast (polled (transmission [0x01, 0x23, 0x45, 0x32, 0x71]))) (False, wh2_init) =
   Some (False, \<lparr>wh2_flags = 3, wh2_packet_state = 2, wh2_timeout = 413,
      wh2_packet = [0x01, 0x23, 0x45, 0x32, 0x38], wh2_calculated_crc = 0,
      sampling_state = 2, count = 0, was_low = False, packet_no = 4,
      bit_no = 7, history = 0xFE\<rparr>) \<and>
   step Pass \<lparr>wh2_flags = 3, wh2_packet_state = 2, wh2_timeout = 413,
      wh2_packet = [0x01, 0x23, 0x45, 0x32, 0x38], wh2_calculated_crc = 0,
      sampling_state = 2, count = 0, was_low = False, packet_no = 4,
      bit_no = 7, history = 0xFE\<rparr> =
   Some (True, \<lparr>wh2_flags = 0, wh2_packet_state = 0, wh2_timeout = 0,
      wh2_packet = [0x01, 0x23, 0x45, 0x32, 0x71], wh2_calculated_crc = 0x71,
      sampling_state = 2, count = 0, was_low = False, packet_no = 5,
      bit_no = 0, history = 0xFE\<rparr>) \<and>
   bits_accumulated \<lparr>wh2_flags = 3, wh2_packet_state = 2, wh2_timeout = 413,
      wh2_packet = [0x01, 0x23, 0x45, 0x32, 0x38], wh2_calculated_crc = 0,
      sampling_state = 2, count = 0, was_low = False, packet_no = 4,
      bit_no = 7, history = 0xFE\<rparr> = 39"
proof -
  have s1: "step Pass \<lparr>wh2_flags = 1, wh2_packet_state = 1, wh2_timeout = 12,
      wh2_packet = [0, 0, 0, 0, 0], wh2_calculated_crc = 0,
      sampling_state = 2, count = 0, was_low = False, packet_no = 0,
      bit_no = 0, history = 0xFF\<rparr> =
   Some (False, \<lparr>wh2_flags = 0, wh2_packet_state = 2, wh2_timeout = 12,
      wh2_packet = [0, 0, 0, 0, 0], wh2_calculated_crc = 0,
      sampling_state = 2, count = 0, was_low = False, packet_no = 0,
      bit_no = 1, history = 0xFE\<rparr>)"
    by code_simp
  have s2: "step Pass \<lparr>wh2_flags = 3, wh2_packet_state = 2, wh2_timeout = 413,
      wh2_packet = [0x01, 0x23, 0x45, 0x32, 0x38], wh2_calculated_crc = 0,
      sampling_state = 2, count = 0, was_low = False, packet_no = 4,
      bit_no = 7, history = 0xFE\<rparr> =
   Some (True, \<lparr>wh2_flags = 0, wh2_packet_state = 0, wh2_timeout = 0,
      wh2_packet = [0x01, 0x23, 0x45, 0x32, 0x71], wh2_calculated_crc = 0x71,
      sampling_state = 2, count = 0, was_low = False, packet_no = 5,
      bit_no = 0, history = 0xFE\<rparr>)"
    by code_simp
  from frame_state_cycle [OF preamble_match_example s1]
    frame_state_cycle [OF last_bit_example s2]
    preamble_match_example last_bit_example s1 s2
  show ?thesis by simp
qed

section \<open>Timeout recovery\<close>













text \<open>
  The timeout is armed whenever the frame state is not idle, in every run; and from such
  a state the frame state is idle again before \<open>601 - wh2_timeout\<close> further ticks have
  passed, whatever the pin levels and the passes of the main loop in between.
\<close>

lemma armed_step:
  fixes t :: int16
  assumes "0 <s t" and "t \<le>s 600"
  shows "0 <s t + 1"
proof -
  from assms have r: "0 < sint t" "sint t \<le> 600"
    by (simp_all add: word_sless_alt word_sle_eq)
  have "sint (t + 1) = signed_take_bit 15 (sint t + 1)"
    by (simp add: sint_word_add)
  also have "\<dots> = sint t + 1"
    using r by (intro signed_take_bit_int_eq_self) simp_all
  finally show ?thesis using r by (simp add: word_sless_alt)
qed

lemma one_armed: "0 <s (1::int16)" "(1::int16) \<le>s 600"
  by (simp_all add: word_sless_alt word_sle_eq)

lemma timeout_inv_init: "timeout_inv wh2_init"
  by (simp add: timeout_inv_def wh2_init_def)

lemma timeout_inv_isr:
  assumes "timeout_inv s"
  shows "timeout_inv (TIMER1_COMPA_vect rf s)"
proof -
  let ?s1 = "sampler_switch rf s"
  from assms have i1: "timeout_inv ?s1"
    by (simp add: timeout_inv_def sampler_switch_packet_state)
  show ?thesis
  proof (cases "0 <s wh2_timeout ?s1")
    case False
    with i1 show ?thesis by (simp add: TIMER1_COMPA_vect_def timeout_check_def)
  next
    case True
    show ?thesis
    proof (cases "600 <s wh2_timeout ?s1 + 1")
      case f: True
      with True show ?thesis
        by (simp add: TIMER1_COMPA_vect_def timeout_check_def Let_def HAS_TIMED_OUT_def
            timeout_inv_def)
    next
      case f: False
      then have le: "wh2_timeout ?s1 + 1 \<le>s 600" by (simp add: signed.not_less)
      have "wh2_packet_state ?s1 \<noteq> 0 \<longrightarrow> 0 <s wh2_timeout ?s1 + 1"
        using i1 armed_step [of "wh2_timeout ?s1"] by (auto simp add: timeout_inv_def)
      with True f le show ?thesis
        by (simp add: TIMER1_COMPA_vect_def timeout_check_def Let_def HAS_TIMED_OUT_def
            timeout_inv_def)
    qed
  qed
qed

lemma timeout_inv_accept:
  assumes "frame_inv s" and "timeout_inv s" and "wh2_accept s = Some (r, s')"
  shows "timeout_inv s'"
proof -
  from assms(1) consider "wh2_packet_state s = 0" | "wh2_packet_state s = 1"
    | "wh2_packet_state s = 2" by (auto simp add: frame_inv_def)
  then show ?thesis
  proof cases
    case 1
    with assms(3) show ?thesis
      by (auto simp add: accept_idle timeout_inv_def one_armed split: if_splits)
  next
    case 2
    with assms(2,3) show ?thesis
      by (auto simp add: accept_seeking Let_def timeout_inv_def split: if_splits)
  next
    case 3
    from assms(1) 3 have "unat (packet_no s) < 5" and "length (wh2_packet s) = 5"
      by (auto simp add: frame_inv_def word_le_nat_alt)
    from accept_accumulating [OF 3 this] assms(2,3) 3 show ?thesis
      by (auto simp add: Let_def timeout_inv_def split: if_splits)
  qed
qed

lemma timeout_inv_step:
  assumes "frame_inv s" and "timeout_inv s" and "step e s = Some (r, s')"
  shows "timeout_inv s'"
proof (cases e)
  case (Tick rf)
  with assms(2,3) show ?thesis by (auto simp add: timeout_inv_isr)
next
  case Pass
  with assms(3) have l: "loop s = Some (r, s')" by simp
  show ?thesis
  proof (cases "wh2_flags s = 0")
    case True
    with l assms(2) show ?thesis by (auto simp add: loop_def)
  next
    case False
    with l obtain s1 where a: "wh2_accept s = Some (r, s1)"
      and s': "s' = (if r then wh2_calculate_crc s1 else s1)\<lparr>wh2_flags := 0\<rparr>"
      by (auto simp add: loop_def split: option.splits)
    from timeout_inv_accept [OF assms(1,2) a] s' show ?thesis
      by (simp add: timeout_inv_def wh2_calculate_crc_def)
  qed
qed

lemma timeout_armed:
  assumes "run evs (r0, s) = Some (r, s')" and "frame_inv s" and "timeout_inv s"
  shows "timeout_inv s'"
  using assms
proof (induction evs arbitrary: r0 s)
  case Nil
  then show ?case by simp
next
  case (Cons e evs)
  from frame_inv_step [OF Cons.prems(2), of e] obtain r1 s1 where
    st: "step e s = Some (r1, s1)" "frame_inv s1" by blast
  from timeout_inv_step [OF Cons.prems(2,3) st(1)] have "timeout_inv s1" .
  with Cons.IH [of r1 s1] st Cons.prems(1) show ?case by simp
qed

lemma sint_succ_armed:
  fixes t :: int16
  assumes "0 <s t" and "t \<le>s 600"
  shows "sint (t + 1) = sint t + 1"
proof -
  from assms have r: "0 < sint t" "sint t \<le> 600"
    by (simp_all add: word_sless_alt word_sle_eq)
  have "sint (t + 1) = signed_take_bit 15 (sint t + 1)"
    by (simp add: sint_word_add)
  also have "\<dots> = sint t + 1"
    using r by (intro signed_take_bit_int_eq_self) simp_all
  finally show ?thesis .
qed

lemma isr_timeout_advance:
  assumes "timeout_inv s" and "wh2_packet_state (TIMER1_COMPA_vect rf s) \<noteq> 0"
  shows "sint (wh2_timeout (TIMER1_COMPA_vect rf s)) = sint (wh2_timeout s) + 1"
proof -
  from assms(2) have nz: "wh2_packet_state s \<noteq> 0" and nf: "\<not> timeout_fires s"
    by (auto simp add: isr_packet_state split: if_splits)
  from assms(1) nz have a: "0 <s wh2_timeout s" "wh2_timeout s \<le>s 600"
    by (simp_all add: timeout_inv_def)
  with nf have "wh2_timeout (TIMER1_COMPA_vect rf s) = wh2_timeout s + 1"
    by (simp add: TIMER1_COMPA_vect_def timeout_check_def timeout_fires_def Let_def)
  with sint_succ_armed [OF a] show ?thesis by simp
qed

lemma loop_timeout_same:
  assumes "frame_inv s" and "wh2_packet_state s \<noteq> 0" and "loop s = Some (r, s')"
    and "wh2_packet_state s' \<noteq> 0"
  shows "wh2_timeout s' = wh2_timeout s"
proof (cases "wh2_flags s = 0")
  case True
  with assms(3) show ?thesis by (auto simp add: loop_def)
next
  case False
  from assms(1,2) consider "wh2_packet_state s = 1" | "wh2_packet_state s = 2"
    by (auto simp add: frame_inv_def)
  then show ?thesis
  proof cases
    case 1
    with False assms(3) show ?thesis
      by (auto simp add: loop_def accept_seeking Let_def wh2_calculate_crc_def
          split: if_splits)
  next
    case 2
    from assms(1) 2 have "unat (packet_no s) < 5" and "length (wh2_packet s) = 5"
      by (auto simp add: frame_inv_def word_le_nat_alt)
    from accept_accumulating [OF 2 this] False assms(3,4) show ?thesis
      by (auto simp add: loop_def Let_def wh2_calculate_crc_def split: if_splits)
  qed
qed

lemma idle_within_timeout:
  assumes "frame_inv s" and "timeout_inv s" and "wh2_packet_state s \<noteq> 0"
    and "601 - sint (wh2_timeout s) \<le> int (length (filter (\<lambda>e. e \<noteq> Pass) evs))"
  shows "\<exists>evs1 evs2 r1 s1. evs = evs1 @ evs2 \<and> run evs1 (r0, s) = Some (r1, s1) \<and>
           wh2_packet_state s1 = 0"
  using assms
proof (induction evs arbitrary: r0 s)
  case Nil
  then have "sint (wh2_timeout s) \<le> 600" by (simp add: timeout_inv_def word_sle_eq)
  with Nil.prems(4) show ?case by simp
next
  case (Cons e evs)
  from frame_inv_step [OF Cons.prems(1), of e] obtain r1 s1 where
    st: "step e s = Some (r1, s1)" "frame_inv s1" by blast
  have ti: "timeout_inv s1" by (rule timeout_inv_step [OF Cons.prems(1,2) st(1)])
  show ?case
  proof (cases "wh2_packet_state s1 = 0")
    case True
    have "e # evs = [e] @ evs" by simp
    moreover from st(1) have "run [e] (r0, s) = Some (r1, s1)" by simp
    ultimately show ?thesis using True by blast
  next
    case False
    have "601 - sint (wh2_timeout s1) \<le> int (length (filter (\<lambda>e. e \<noteq> Pass) evs))"
    proof (cases e)
      case (Tick rf)
      with st(1) have s1: "s1 = TIMER1_COMPA_vect rf s" by simp
      from isr_timeout_advance [OF Cons.prems(2), of rf] False s1
      have "sint (wh2_timeout s1) = sint (wh2_timeout s) + 1" by simp
      with Cons.prems(4) Tick show ?thesis by simp
    next
      case Pass
      with st(1) have "loop s = Some (r1, s1)" by simp
      from loop_timeout_same [OF Cons.prems(1,3) this False] Cons.prems(4) Pass
      show ?thesis by simp
    qed
    from Cons.IH [OF st(2) ti False this, of r1] obtain evs1 evs2 r2 s2 where
      "evs = evs1 @ evs2" "run evs1 (r1, s1) = Some (r2, s2)" "wh2_packet_state s2 = 0"
      by blast
    with st(1) have "e # evs = (e # evs1) @ evs2" "run (e # evs1) (r0, s) = Some (r2, s2)"
      by simp_all
    with \<open>wh2_packet_state s2 = 0\<close> show ?thesis by blast
  qed
qed

text \<open>
  A run at the tick level: a preamble and three bits of a frame, then silence. After
  554 silent ticks the timeout counter stands at 600 with the frame state still
  accumulating-bits; with 700 silent ticks the timeout has fired, and the transmission
  that follows is received.
\<close>

lemma partial_frame_example:
  "run (polled (pulse True @ pulse True @ pulse False @ pulse True @ pulse False @ pulse False
          @ replicate 554 False)) (False, wh2_init) =
   Some (False, \<lparr>wh2_flags = 0, wh2_packet_state = 2, wh2_timeout = 600,
      wh2_packet = [4, 0, 0, 0, 0], wh2_calculated_crc = 0,
      sampling_state = 2, count = 42, was_low = False, packet_no = 0,
      bit_no = 4, history = 0xFE\<rparr>)"
  by code_simp

lemma timeout_recovery_example:
  "run (polled (pulse True @ pulse True @ pulse False @ pulse True @ pulse False @ pulse False
          @ replicate 700 False @ transmission [0x01, 0x23, 0x45, 0x32, 0x71]))
     (False, wh2_init) =
   Some (True, \<lparr>wh2_flags = 0, wh2_packet_state = 0, wh2_timeout = 0,
      wh2_packet = [0x01, 0x23, 0x45, 0x32, 0x71], wh2_calculated_crc = 0x71,
      sampling_state = 2, count = 0, was_low = False, packet_no = 5,
      bit_no = 0, history = 0xFE\<rparr>)"
  by code_simp



end
